theory Spec2Isabelle
  imports Main
begin

section \<open>Values and text formatting\<close>

text \<open>
  The comparison operators of \<^verbatim>\<open>aflow/keywords.py\<close> receive an arbitrary Python value and
  paste it into a string with \<^verbatim>\<open>str.format\<close>. A value is a text (an instance of
  \<^verbatim>\<open>string_types\<close>), an integer, or any other object; the latter is given by the text that
  \<^verbatim>\<open>format\<close> produces for it (for the float \<^verbatim>\<open>1.0\<close> that text is \<^verbatim>\<open>1.0\<close>).
\<close>

datatype pyval = Text string | IntV int | Obj string

datatype pytype = PyFloat | PyStr | PyList

datatype error = ValueError | TypeError | AssertionError | AttributeError

fun str_nat :: "nat \<Rightarrow> string" where
  "str_nat n =
     (if n < 10 then [''0123456789'' ! n]
      else str_nat (n div 10) @ [''0123456789'' ! (n mod 10)])"

declare str_nat.simps [simp del]

definition str_int :: "int \<Rightarrow> string" where
  "str_int i = (if i < 0 then CHR ''-'' # str_nat (nat (- i)) else str_nat (nat i))"

fun format_val :: "pyval \<Rightarrow> string" where
  "format_val (Text s) = s"
| "format_val (IntV i) = str_int i"
| "format_val (Obj r) = r"

fun isinstance_string :: "pyval \<Rightarrow> bool" where
  "isinstance_string (Text s) = True"
| "isinstance_string (IntV i) = False"
| "isinstance_string (Obj r) = False"

text \<open>The class attribute \<^verbatim>\<open>name\<close> is \<^verbatim>\<open>None\<close> on the base class; \<^verbatim>\<open>format\<close> prints it as
  \<^verbatim>\<open>None\<close>.\<close>

definition format_name :: "string option \<Rightarrow> string" where
  "format_name n = (case n of None \<Rightarrow> ''None'' | Some s \<Rightarrow> s)"

definition sq :: string where
  "sq = [CHR 0x27]"

section \<open>Keyword objects and the object store\<close>

record keyword =
  name :: "string option"
  ptype :: "pytype option"
  atype :: "string option"
  state :: "string list"
  cache :: "string list"
  classes :: "string option set"

text \<open>
  Keyword objects are mutable and compared by identity (\<^verbatim>\<open>other is self\<close>), so they live
  in a store: a reference is the index of an allocated object, and a new object is
  appended. Every operation returns the store it leaves behind, also when it raises.
\<close>

type_synonym ref = nat
type_synonym heap = "keyword list"

text \<open>\<^verbatim>\<open>Keyword.__init__(self, state=None)\<close>, on a class whose attributes are \<open>nm\<close>, \<open>pt\<close>, \<open>at\<close>.\<close>

definition Keyword_init ::
  "string option \<Rightarrow> pytype option \<Rightarrow> string option \<Rightarrow> string list option \<Rightarrow> keyword" where
  "Keyword_init nm pt at st =
     \<lparr>name = nm, ptype = pt, atype = at,
      state = (case st of Some s \<Rightarrow> s | None \<Rightarrow> []),
      cache = [],
      classes = {nm}\<rparr>"

definition nspecies :: keyword where
  "nspecies = Keyword_init (Some ''nspecies'') (Some PyFloat) (Some ''number'') None"

definition Egap :: keyword where
  "Egap = Keyword_init (Some ''Egap'') (Some PyFloat) (Some ''number'') None"

definition Egap_type :: keyword where
  "Egap_type = Keyword_init (Some ''Egap_type'') (Some PyStr) (Some ''string'') None"

text \<open>\<^verbatim>\<open>Keyword.__str__\<close>: returning \<^verbatim>\<open>None\<close> from \<^verbatim>\<open>__str__\<close> is a \<^verbatim>\<open>TypeError\<close>.\<close>

definition Keyword_str :: "keyword \<Rightarrow> error + string" where
  "Keyword_str k =
     (if length (state k) = 1 then Inr (state k ! 0)
      else if length (cache k) = 1 then Inr (cache k ! 0)
      else (case name k of Some n \<Rightarrow> Inr n | None \<Rightarrow> Inl TypeError))"

subsection \<open>Comparison operators\<close>

definition Keyword_lt :: "heap \<Rightarrow> ref \<Rightarrow> pyval \<Rightarrow> heap \<times> ref" where
  "Keyword_lt h self other =
     (let k = h ! self in
      (h[self := k\<lparr>cache := cache k @
          [if isinstance_string other
           then format_name (name k) @ ''(*'' @ sq @ format_val other @ sq @ '')''
           else format_name (name k) @ ''(*'' @ format_val other @ '')'']\<rparr>], self))"

definition Keyword_gt :: "heap \<Rightarrow> ref \<Rightarrow> pyval \<Rightarrow> heap \<times> ref" where
  "Keyword_gt h self other =
     (let k = h ! self in
      (h[self := k\<lparr>cache := cache k @
          [if isinstance_string other
           then format_name (name k) @ ''('' @ sq @ format_val other @ sq @ ''*)''
           else format_name (name k) @ ''('' @ format_val other @ ''*)'']\<rparr>], self))"

definition Keyword_mod :: "heap \<Rightarrow> ref \<Rightarrow> pyval \<Rightarrow> heap \<times> (error + ref)" where
  "Keyword_mod h self other =
     (let k = h ! self in
      if \<not> isinstance_string other then (h, Inl AssertionError)
      else (h[self := k\<lparr>cache := cache k @
          [format_name (name k) @ ''(*'' @ sq @ format_val other @ sq @ ''*)'']\<rparr>], Inr self))"

definition Keyword_eq :: "heap \<Rightarrow> ref \<Rightarrow> pyval \<Rightarrow> heap \<times> ref" where
  "Keyword_eq h self other =
     (let k = h ! self in
      (h[self := k\<lparr>cache := cache k @
          [if isinstance_string other
           then format_name (name k) @ ''('' @ sq @ format_val other @ sq @ '')''
           else format_name (name k) @ ''('' @ format_val other @ '')'']\<rparr>], self))"

subsection \<open>Boolean combination\<close>

text \<open>The \<^verbatim>\<open>if/elif/else\<close> chain of the branch \<^verbatim>\<open>other is self\<close>: it settles the new
  \<^verbatim>\<open>state\<close> or raises; \<^verbatim>\<open>self.cache = []\<close> follows it.\<close>

definition combine_self :: "keyword \<Rightarrow> string \<Rightarrow> error + keyword" where
  "combine_self k token =
     (if length (cache k) = 2
      then Inr (k\<lparr>state := state k @ [cache k ! 0 @ token @ cache k ! 1]\<rparr>)
      else if length (cache k) = 1 \<and> length (state k) = 1
      then Inr (k\<lparr>state := [cache k ! 0 @ token @ ''('' @ state k ! 0 @ '')'']\<rparr>)
      else if length (state k) = 2
      then Inr (k\<lparr>state := [''('' @ state k ! 0 @ '')'' @ token @ ''('' @ state k ! 1 @ '')'']\<rparr>)
      else Inl ValueError)"

text \<open>The string \<^verbatim>\<open>s\<close> (or \<^verbatim>\<open>o\<close>) of the other branch: \<^verbatim>\<open>None\<close> unless one of the two
  patterns matches.\<close>

definition resolved :: "keyword \<Rightarrow> string option" where
  "resolved k =
     (if length (state k) = 1 \<and> length (cache k) = 0 then Some (state k ! 0)
      else if length (state k) = 0 \<and> length (cache k) = 1 then Some (cache k ! 0)
      else None)"

text \<open>\<^verbatim>\<open>if ':' in s or ',' in s: s = "({})".format(s)\<close>; the membership test on \<^verbatim>\<open>None\<close>
  raises \<^verbatim>\<open>TypeError\<close>.\<close>

definition parenthesize :: "string option \<Rightarrow> error + string option" where
  "parenthesize s =
     (case s of
        None \<Rightarrow> Inl TypeError
      | Some t \<Rightarrow>
          Inr (Some (if CHR '':'' \<in> set t \<or> CHR '','' \<in> set t then ''('' @ t @ '')'' else t)))"

definition combine_other :: "keyword \<Rightarrow> keyword \<Rightarrow> string \<Rightarrow> error + keyword" where
  "combine_other k k' token =
     (case parenthesize (resolved k) of
        Inl e \<Rightarrow> Inl e
      | Inr s \<Rightarrow>
          (case parenthesize (resolved k') of
             Inl e \<Rightarrow> Inl e
           | Inr o' \<Rightarrow>
               (case s of
                  None \<Rightarrow> Inl AssertionError
                | Some s' \<Rightarrow>
                    (case o' of
                       None \<Rightarrow> Inl AssertionError
                     | Some o'' \<Rightarrow>
                         Inr ((Keyword_init None None None (Some [s' @ token @ o'']))
                                \<lparr>classes := classes k \<union> classes k'\<rparr>)))))"

definition generic_combine :: "heap \<Rightarrow> ref \<Rightarrow> ref \<Rightarrow> string \<Rightarrow> heap \<times> (error + ref)" where
  "generic_combine h self other token =
     (if other = self
      then (case combine_self (h ! self) token of
              Inl e \<Rightarrow> (h, Inl e)
            | Inr k \<Rightarrow> (h[self := k\<lparr>cache := []\<rparr>], Inr self))
      else (case combine_other (h ! self) (h ! other) token of
              Inl e \<Rightarrow> (h, Inl e)
            | Inr result \<Rightarrow> (h @ [result], Inr (length h))))"

definition Keyword_and :: "heap \<Rightarrow> ref \<Rightarrow> ref \<Rightarrow> heap \<times> (error + ref)" where
  "Keyword_and h self other = generic_combine h self other '',''"

definition Keyword_or :: "heap \<Rightarrow> ref \<Rightarrow> ref \<Rightarrow> heap \<times> (error + ref)" where
  "Keyword_or h self other = generic_combine h self other '':''"

subsection \<open>Negation\<close>

text \<open>\<^verbatim>\<open>s.replace(c, new)\<close> for a one-character \<open>c\<close>: every occurrence is replaced.\<close>

definition replace_chr :: "char \<Rightarrow> string \<Rightarrow> string \<Rightarrow> string" where
  "replace_chr c new s = concat (map (\<lambda>x. if x = c then new else [x]) s)"

definition invert_str :: "string \<Rightarrow> string" where
  "invert_str s =
     (if CHR ''!'' \<in> set s then replace_chr CHR ''!'' [] s
      else replace_chr CHR ''('' ''(!'' s)"

definition Keyword_invert :: "heap \<Rightarrow> ref \<Rightarrow> heap \<times> (error + ref)" where
  "Keyword_invert h self =
     (let k = h ! self in
      if \<not> (length (state k) = 1 \<or> length (cache k) = 1) then (h, Inl AssertionError)
      else if length (state k) = 1
      then (h[self := k\<lparr>state := (state k)[0 := invert_str (state k ! 0)]\<rparr>], Inr self)
      else if length (cache k) = 1
      then (h[self := k\<lparr>cache := (cache k)[0 := invert_str (cache k ! 0)]\<rparr>], Inr self)
      else (h, Inr self))"

subsection \<open>The module: registry and reset\<close>

text \<open>
  The module holds the store, its attributes that are bound to \<^verbatim>\<open>Keyword\<close> instances
  (what \<^verbatim>\<open>inspect.getmembers\<close> filtered by \<^verbatim>\<open>isinstance(o, Keyword)\<close> yields), and the
  global list \<^verbatim>\<open>_all_keywords\<close>.
\<close>

record module =
  heap :: heap
  members :: "(string \<times> ref) list"
  all_keywords :: "string list"

definition find_all :: "module \<Rightarrow> module" where
  "find_all m =
     (if length (all_keywords m) = 0
      then m\<lparr>all_keywords := foldl (\<lambda>acc (n, o'). acc @ [n]) (all_keywords m) (members m)\<rparr>
      else m)"

text \<open>The loop of \<^verbatim>\<open>reset\<close>; \<^verbatim>\<open>getattr\<close> raises \<^verbatim>\<open>AttributeError\<close> on a missing attribute.\<close>

fun reset_loop :: "string list \<Rightarrow> module \<Rightarrow> module \<times> (error + unit)" where
  "reset_loop [] m = (m, Inr ())"
| "reset_loop (n # ns) m =
     (case map_of (members m) n of
        None \<Rightarrow> (m, Inl AttributeError)
      | Some cls \<Rightarrow>
          reset_loop ns
            (m\<lparr>heap := (heap m)[cls := (heap m ! cls)\<lparr>state := [], cache := []\<rparr>]\<rparr>))"

definition reset :: "module \<Rightarrow> module \<times> (error + unit)" where
  "reset m = (let m' = find_all m in reset_loop (all_keywords m') m')"

section \<open>Comparison operators: equality\<close>

text \<open>
  C1. On a field-prototype node (its name is a field name) whose \<open>state\<close> and \<open>cache\<close> are
  empty, the equals operator returns the same reference, changes no other object,
  leaves \<open>state\<close> empty, and leaves exactly one entry in \<open>cache\<close>; the node then
  stringifies to \<open>field('v')\<close> for a text \<open>v\<close>, and to \<open>field(v)\<close> for an integer \<open>v\<close>
  (its decimal form) or any other non-text value (its formatted form).
\<close>

theorem Keyword_eq_fresh:
  assumes "self < length h"
    and "name (h ! self) = Some f"
    and "state (h ! self) = []"
    and "cache (h ! self) = []"
  shows "snd (Keyword_eq h self v) = self
    \<and> length (fst (Keyword_eq h self v)) = length h
    \<and> (\<forall>b. b \<noteq> self \<longrightarrow> fst (Keyword_eq h self v) ! b = h ! b)
    \<and> state (fst (Keyword_eq h self v) ! self) = state (h ! self)
    \<and> length (cache (fst (Keyword_eq h self v) ! self)) = length (cache (h ! self)) + 1
    \<and> name (fst (Keyword_eq h self v) ! self) = name (h ! self)
    \<and> classes (fst (Keyword_eq h self v) ! self) = classes (h ! self)
    \<and> Keyword_str (fst (Keyword_eq h self v) ! self) =
        Inr (case v of
               Text t \<Rightarrow> f @ ''('' @ sq @ t @ sq @ '')''
             | IntV i \<Rightarrow> f @ ''('' @ str_int i @ '')''
             | Obj r \<Rightarrow> f @ ''('' @ r @ '')'')"
  using assms
  by (cases v) (simp_all add: Keyword_eq_def Let_def Keyword_str_def format_name_def)

theorem Keyword_eq_fresh_witness:
  "Keyword_str (fst (Keyword_eq [Egap, Egap_type] 1 (Text ''insulator'')) ! 1)
     = Inr ''Egap_type('insulator')''
   \<and> Keyword_str (fst (Keyword_eq [nspecies] 0 (IntV 4)) ! 0) = Inr ''nspecies(4)''
   \<and> snd (Keyword_eq [Egap, Egap_type] 1 (Text ''insulator'')) = 1
   \<and> fst (Keyword_eq [Egap, Egap_type] 1 (Text ''insulator'')) ! 0 = Egap
   \<and> state (fst (Keyword_eq [Egap, Egap_type] 1 (Text ''insulator'')) ! 1) = []
   \<and> length (cache (fst (Keyword_eq [Egap, Egap_type] 1 (Text ''insulator'')) ! 1)) = 1"
  using Keyword_eq_fresh [of 1 "[Egap, Egap_type]" "''Egap_type''" "Text ''insulator''"]
    Keyword_eq_fresh [of 0 "[nspecies]" "''nspecies''" "IntV 4"]
  by (simp add: Egap_type_def Egap_def nspecies_def Keyword_init_def sq_def str_int_def
      str_nat.simps)

section \<open>Boolean combination\<close>

lemma generic_combine_self_ok:
  "combine_self (h ! self) token = Inr k \<Longrightarrow>
   generic_combine h self self token = (h[self := k\<lparr>cache := []\<rparr>], Inr self)"
  by (simp add: generic_combine_def)

lemma generic_combine_self_err:
  "combine_self (h ! self) token = Inl e \<Longrightarrow>
   generic_combine h self self token = (h, Inl e)"
  by (simp add: generic_combine_def)

lemma generic_combine_other_ok:
  "other \<noteq> self \<Longrightarrow> combine_other (h ! self) (h ! other) token = Inr r \<Longrightarrow>
   generic_combine h self other token = (h @ [r], Inr (length h))"
  by (simp add: generic_combine_def)

lemma generic_combine_other_err:
  "other \<noteq> self \<Longrightarrow> combine_other (h ! self) (h ! other) token = Inl e \<Longrightarrow>
   generic_combine h self other token = (h, Inl e)"
  by (simp add: generic_combine_def)

lemma combine_other_resolved:
  "resolved k = Some s \<Longrightarrow> resolved k' = Some t \<Longrightarrow>
   combine_other k k' token =
     Inr \<lparr>name = None, ptype = None, atype = None,
          state = [(if CHR '':'' \<in> set s \<or> CHR '','' \<in> set s then ''('' @ s @ '')'' else s)
                   @ token @
                   (if CHR '':'' \<in> set t \<or> CHR '','' \<in> set t then ''('' @ t @ '')'' else t)],
          cache = [], classes = classes k \<union> classes k'\<rparr>"
  by (simp add: combine_other_def parenthesize_def Keyword_init_def)

lemma combine_other_Inr_cases:
  "combine_other k k' token = Inr r \<Longrightarrow>
   \<exists>s. state r = [s] \<and> cache r = [] \<and> name r = None \<and> classes r = classes k \<union> classes k'"
  by (auto simp: combine_other_def parenthesize_def Keyword_init_def
      split: sum.splits option.splits)

text \<open>
  C2. A self-combination of a node with empty \<open>state\<close> and two pending comparisons
  \<open>c0\<close>, \<open>c1\<close> settles the single state entry \<open>c0 @ token @ c1\<close> and empties the
  cache. In particular, on the \<open>nspecies\<close> prototype, \<open>(nspecies > 2) & (nspecies < 5)\<close>
  on the one instance leaves a node that stringifies to \<open>nspecies(2*),nspecies(*5)\<close>.
\<close>

theorem self_and_two_pending:
  "(\<forall>h self c0 c1 token.
      self < length h \<longrightarrow> state (h ! self) = [] \<longrightarrow> cache (h ! self) = [c0, c1] \<longrightarrow>
        snd (generic_combine h self self token) = Inr self
        \<and> state (fst (generic_combine h self self token) ! self) = [c0 @ token @ c1]
        \<and> cache (fst (generic_combine h self self token) ! self) = [])
   \<and> (let h1 = fst (Keyword_gt [nspecies] 0 (IntV 2));
           h2 = fst (Keyword_lt h1 0 (IntV 5));
           h3 = fst (Keyword_and h2 0 0)
       in snd (Keyword_gt [nspecies] 0 (IntV 2)) = 0
        \<and> snd (Keyword_lt h1 0 (IntV 5)) = 0
        \<and> cache (h2 ! 0) = [''nspecies(2*)'', ''nspecies(*5)'']
        \<and> snd (Keyword_and h2 0 0) = Inr 0
        \<and> state (h3 ! 0) = [''nspecies(2*),nspecies(*5)'']
        \<and> cache (h3 ! 0) = []
        \<and> Keyword_str (h3 ! 0) = Inr ''nspecies(2*),nspecies(*5)'')"
proof (intro conjI allI impI)
  fix h :: heap and self c0 c1 token
  assume a: "self < length h" "state (h ! self) = []" "cache (h ! self) = [c0, c1]"
  then have cs: "combine_self (h ! self) token = Inr ((h ! self)\<lparr>state := [c0 @ token @ c1]\<rparr>)"
    by (simp add: combine_self_def)
  show "snd (generic_combine h self self token) = Inr self"
    by (simp add: generic_combine_self_ok [OF cs])
  show "state (fst (generic_combine h self self token) ! self) = [c0 @ token @ c1]"
    using a by (simp add: generic_combine_self_ok [OF cs])
  show "cache (fst (generic_combine h self self token) ! self) = []"
    using a by (simp add: generic_combine_self_ok [OF cs])
next
  show "let h1 = fst (Keyword_gt [nspecies] 0 (IntV 2));
           h2 = fst (Keyword_lt h1 0 (IntV 5));
           h3 = fst (Keyword_and h2 0 0)
       in snd (Keyword_gt [nspecies] 0 (IntV 2)) = 0
        \<and> snd (Keyword_lt h1 0 (IntV 5)) = 0
        \<and> cache (h2 ! 0) = [''nspecies(2*)'', ''nspecies(*5)'']
        \<and> snd (Keyword_and h2 0 0) = Inr 0
        \<and> state (h3 ! 0) = [''nspecies(2*),nspecies(*5)'']
        \<and> cache (h3 ! 0) = []
        \<and> Keyword_str (h3 ! 0) = Inr ''nspecies(2*),nspecies(*5)''"
    by (simp add: Keyword_gt_def Keyword_lt_def Keyword_and_def generic_combine_def
        combine_self_def Keyword_str_def nspecies_def Keyword_init_def format_name_def
        str_int_def str_nat.simps Let_def)
qed

theorem self_and_two_pending_witness:
  "state (fst (generic_combine [Egap\<lparr>cache := [''Egap(1*)'', ''Egap(*3)'']\<rparr>] 0 0 '':'') ! 0)
     = [''Egap(1*):Egap(*3)'']
   \<and> cache (fst (generic_combine [Egap\<lparr>cache := [''Egap(1*)'', ''Egap(*3)'']\<rparr>] 0 0 '':'') ! 0)
     = []"
  using self_and_two_pending [THEN conjunct1, rule_format,
      of 0 "[Egap\<lparr>cache := [''Egap(1*)'', ''Egap(*3)'']\<rparr>]" "''Egap(1*)''" "''Egap(*3)''" "'':''"]
  by (simp add: Egap_def Keyword_init_def)

text \<open>
  C3. Combining two distinct nodes that each hold exactly one pending comparison (and no
  settled entry) allocates a new node, at a reference that was not in use, and changes
  no existing object. The new node stringifies to the left comparison, the token and
  the right comparison (either one in parentheses when it contains \<open>:\<close> or \<open>,\<close>), and its
  \<open>classes\<close> is the union of the operands' \<open>classes\<close>. For \<open>(Egap > 1.0) &
  (Egap_type == 'insulator')\<close> the string is \<open>Egap(1.0*),Egap_type('insulator')\<close> and the
  classes are \<open>{Egap, Egap_type}\<close>.
\<close>

theorem cross_and_pending:
  assumes "self < length h" and "other < length h" and "other \<noteq> self"
    and "state (h ! self) = []" and "cache (h ! self) = [cs]"
    and "state (h ! other) = []" and "cache (h ! other) = [co]"
  shows "\<exists>r. generic_combine h self other token = (h @ [r], Inr (length h))
    \<and> Keyword_str r =
        Inr ((if CHR '':'' \<in> set cs \<or> CHR '','' \<in> set cs then ''('' @ cs @ '')'' else cs)
             @ token @
             (if CHR '':'' \<in> set co \<or> CHR '','' \<in> set co then ''('' @ co @ '')'' else co))
    \<and> classes r = classes (h ! self) \<union> classes (h ! other)
    \<and> (h @ [r]) ! self = h ! self
    \<and> (h @ [r]) ! other = h ! other"
proof -
  have rs: "resolved (h ! self) = Some cs" and ro: "resolved (h ! other) = Some co"
    using assms by (simp_all add: resolved_def)
  note co = combine_other_resolved [OF rs ro, of token]
  show ?thesis
    using assms(1,2)
    by (simp add: generic_combine_other_ok [OF assms(3) co] Keyword_str_def nth_append)
qed


theorem cross_and_pending_witness:
  "(let h1 = fst (Keyword_gt [Egap, Egap_type] 0 (Obj ''1.0''));
        h2 = fst (Keyword_eq h1 1 (Text ''insulator''))
    in snd (Keyword_and h2 0 1) = Inr 2
     \<and> length (fst (Keyword_and h2 0 1)) = 3
     \<and> Keyword_str (fst (Keyword_and h2 0 1) ! 2) = Inr ''Egap(1.0*),Egap_type('insulator')''
     \<and> classes (fst (Keyword_and h2 0 1) ! 2) = {Some ''Egap'', Some ''Egap_type''}
     \<and> fst (Keyword_and h2 0 1) ! 0 = h2 ! 0
     \<and> fst (Keyword_and h2 0 1) ! 1 = h2 ! 1)"
proof -
  let ?h = "[Egap\<lparr>cache := [''Egap(1.0*)'']\<rparr>, Egap_type\<lparr>cache := [''Egap_type('insulator')'']\<rparr>]"
  have h2: "fst (Keyword_eq (fst (Keyword_gt [Egap, Egap_type] 0 (Obj ''1.0''))) 1
               (Text ''insulator'')) = ?h"
    by (simp add: Keyword_gt_def Keyword_eq_def Egap_def Egap_type_def
        Keyword_init_def format_name_def sq_def Let_def)
  obtain r where r: "generic_combine ?h 0 1 '','' = (?h @ [r], Inr (length ?h))"
    "Keyword_str r = Inr ''Egap(1.0*),Egap_type('insulator')''"
    "classes r = classes (?h ! 0) \<union> classes (?h ! 1)"
    using cross_and_pending [of 0 ?h 1 "''Egap(1.0*)''" "''Egap_type('insulator')''" "'',''"]
    by (auto simp add: Egap_def Egap_type_def Keyword_init_def)
  show ?thesis
    unfolding Let_def h2
    using r by (auto simp add: Keyword_and_def Egap_def Egap_type_def Keyword_init_def)
qed

text \<open>
  C10. The node returned by a successful combination of two distinct nodes is new (its
  reference was not in use and the existing objects are unchanged); its \<open>state\<close> holds
  exactly one string, its \<open>cache\<close> is empty and its name is \<open>None\<close>. So it resolves to
  that string, a further combination with any other resolved node succeeds on either
  side, and negation succeeds on it.
\<close>

theorem cross_result_settled:
  assumes "self < length h" and "other < length h" and "other \<noteq> self"
    and "generic_combine h self other token = (h', Inr r)"
  shows "r = length h \<and> length h' = Suc (length h)
    \<and> (\<forall>b < length h. h' ! b = h ! b)
    \<and> length (state (h' ! r)) = 1 \<and> cache (h' ! r) = [] \<and> name (h' ! r) = None
    \<and> resolved (h' ! r) = Some (state (h' ! r) ! 0)
    \<and> (\<forall>b token'. b \<noteq> r \<longrightarrow> resolved (h' ! b) \<noteq> None \<longrightarrow>
          snd (generic_combine h' r b token') = Inr (length h')
          \<and> snd (generic_combine h' b r token') = Inr (length h'))
    \<and> snd (Keyword_invert h' r) = Inr r"
proof -
  from assms(3,4) obtain k where k: "combine_other (h ! self) (h ! other) token = Inr k"
    and h': "h' = h @ [k]" and r: "r = length h"
    by (auto simp: generic_combine_def split: sum.splits)
  from combine_other_Inr_cases [OF k] obtain s where
    s: "state k = [s]" "cache k = []" "name k = None"
    by blast
  have hr: "h' ! r = k" by (simp add: h' r)
  have res: "resolved k = Some s" using s by (simp add: resolved_def)
  have further: "snd (generic_combine h' r b token') = Inr (length h')
      \<and> snd (generic_combine h' b r token') = Inr (length h')"
    if "b \<noteq> r" and "resolved (h' ! b) \<noteq> None" for b token'
  proof -
    from that(2) obtain t where t: "resolved (h' ! b) = Some t" by blast
    have r': "resolved (h' ! r) = Some s" using res hr by simp
    show ?thesis
      using generic_combine_other_ok [OF that(1) combine_other_resolved [OF r' t, of token']]
        generic_combine_other_ok [OF that(1) [symmetric] combine_other_resolved [OF t r', of token']]
      by simp
  qed
  have inv: "snd (Keyword_invert h' r) = Inr r"
    using s hr by (simp add: Keyword_invert_def Let_def)
  show ?thesis
    using s res hr further inv by (simp add: h' r nth_append)
qed

theorem cross_result_settled_witness:
  "(let h2 = [Egap\<lparr>cache := [''Egap(1.0*)'']\<rparr>, Egap_type\<lparr>cache := [''Egap_type('insulator')'']\<rparr>];
        h3 = fst (Keyword_and h2 0 1)
    in snd (Keyword_and h2 0 1) = Inr 2
     \<and> state (h3 ! 2) = [''Egap(1.0*),Egap_type('insulator')'']
     \<and> cache (h3 ! 2) = [] \<and> name (h3 ! 2) = None
     \<and> snd (Keyword_invert h3 2) = Inr 2
     \<and> snd (Keyword_or h3 2 0) = Inr 3)"
proof -
  let ?h = "[Egap\<lparr>cache := [''Egap(1.0*)'']\<rparr>, Egap_type\<lparr>cache := [''Egap_type('insulator')'']\<rparr>]"
  have c: "generic_combine ?h 0 1 '','' =
      (?h @ [\<lparr>name = None, ptype = None, atype = None,
               state = [''Egap(1.0*),Egap_type('insulator')''], cache = [],
               classes = {Some ''Egap'', Some ''Egap_type''}\<rparr>], Inr 2)"
    by (simp add: generic_combine_def combine_other_def resolved_def parenthesize_def
        Egap_def Egap_type_def Keyword_init_def insert_commute)
  have res: "resolved (?h ! 0) \<noteq> None"
    by (simp add: resolved_def Egap_def Keyword_init_def)
  show ?thesis
    unfolding Let_def Keyword_and_def Keyword_or_def c
    using cross_result_settled [OF _ _ _ c] res
    by (simp add: nth_append)
qed

section \<open>Self-combination\<close>

lemma bounds_then_and:
  assumes "cache k = []"
  shows "Keyword_and (fst (Keyword_lt (fst (Keyword_gt [k] 0 (IntV a))) 0 (IntV b))) 0 0 =
    ([k\<lparr>state := state k @
          [format_name (name k) @ ''('' @ str_int a @ ''*),'' @
           format_name (name k) @ ''(*'' @ str_int b @ '')'']\<rparr>], Inr 0)"
  using assms
  by (simp add: Keyword_gt_def Keyword_lt_def Keyword_and_def generic_combine_def
      combine_self_def Let_def)

text \<open>
  C7. When the buffer lengths of a node match none of the three patterns of a
  self-combination (two pending comparisons; one pending comparison and one settled
  entry; two settled entries), the self-combination raises \<open>ValueError\<close> and the store,
  hence the node's \<open>state\<close> and \<open>cache\<close>, is what it was before the call.
\<close>

theorem self_combine_inconsistent:
  assumes "self < length h"
    and "length (cache (h ! self)) \<noteq> 2"
    and "\<not> (length (cache (h ! self)) = 1 \<and> length (state (h ! self)) = 1)"
    and "length (state (h ! self)) \<noteq> 2"
  shows "generic_combine h self self token = (h, Inl ValueError)"
proof -
  have "combine_self (h ! self) token = Inl ValueError"
    using assms(2-4) by (simp add: combine_self_def)
  then show ?thesis
    by (rule generic_combine_self_err)
qed

theorem self_combine_inconsistent_witness:
  "Keyword_and [nspecies] 0 0 = ([nspecies], Inl ValueError)
   \<and> Keyword_or (fst (Keyword_gt [nspecies] 0 (IntV 2))) 0 0
       = (fst (Keyword_gt [nspecies] 0 (IntV 2)), Inl ValueError)"
  using self_combine_inconsistent [of 0 "[nspecies]" "'',''"]
    self_combine_inconsistent [of 0 "fst (Keyword_gt [nspecies] 0 (IntV 2))" "'':''"]
  by (simp add: Keyword_and_def Keyword_or_def Keyword_gt_def nspecies_def Keyword_init_def
      Let_def)

text \<open>
  C4, as stated, fails: on the one \<open>nspecies\<close> instance, after \<open>(x > 1) & (x < 2)\<close> the
  self-combination \<open>(x > 3) & (x < 4)\<close> completes and leaves two state entries, and a
  third one, \<open>(x > 5) & (x < 6)\<close>, completes and leaves three.
\<close>

theorem self_combine_settles_counterexample:
  "(let h1 = fst (Keyword_and (fst (Keyword_lt (fst (Keyword_gt [nspecies] 0 (IntV 1))) 0 (IntV 2))) 0 0);
        r2 = Keyword_and (fst (Keyword_lt (fst (Keyword_gt h1 0 (IntV 3))) 0 (IntV 4))) 0 0;
        r3 = Keyword_and (fst (Keyword_lt (fst (Keyword_gt (fst r2) 0 (IntV 5))) 0 (IntV 6))) 0 0
    in snd r2 = Inr 0
     \<and> state (fst r2 ! 0) = [''nspecies(1*),nspecies(*2)'', ''nspecies(3*),nspecies(*4)'']
     \<and> snd r3 = Inr 0
     \<and> length (state (fst r3 ! 0)) = 3)"
  by (simp add: bounds_then_and nspecies_def Keyword_init_def format_name_def
      str_int_def str_nat.simps Let_def)

text \<open>
  C4, amended. Whenever a self-combination completes without raising, it returns the same
  node with an empty \<open>cache\<close>. The node then holds exactly one state entry, unless the
  call found two pending comparisons in \<open>cache\<close>: then, on a \<open>state\<close> of at most one
  entry, the merged entry is appended, so that \<open>state\<close> is one entry longer than before
  and has at most two entries.
\<close>

theorem self_combine_settles:
  assumes "self < length h"
    and "generic_combine h self self token = (h', Inr r)"
  shows "r = self
    \<and> cache (h' ! self) = []
    \<and> (length (cache (h ! self)) \<noteq> 2 \<longrightarrow> length (state (h' ! self)) = 1)
    \<and> (length (cache (h ! self)) = 2 \<longrightarrow> length (state (h ! self)) \<le> 1 \<longrightarrow>
         length (state (h' ! self)) = length (state (h ! self)) + 1
         \<and> length (state (h' ! self)) \<le> 2)"
proof (cases "combine_self (h ! self) token")
  case (Inl e)
  then show ?thesis
    using assms(2) by (simp add: generic_combine_self_err)
next
  case (Inr k)
  have h': "h' = h[self := k\<lparr>cache := []\<rparr>]" and r: "r = self"
    using assms(2) by (auto simp add: generic_combine_self_ok [OF Inr])
  have st: "state (h' ! self) = state k" and ca: "cache (h' ! self) = []"
    using assms(1) by (simp_all add: h')
  have len: "if length (cache (h ! self)) = 2
       then length (state k) = length (state (h ! self)) + 1
       else length (state k) = 1"
    using Inr by (auto simp: combine_self_def split: if_splits)
  show ?thesis
    using len r ca by (auto simp: st split: if_splits)
qed

theorem self_combine_settles_witness:
  "(let h2 = fst (Keyword_lt (fst (Keyword_gt [nspecies] 0 (IntV 2))) 0 (IntV 5));
        h3 = fst (Keyword_and h2 0 0);
        h4 = fst (Keyword_gt h3 0 (IntV 7));
        h5 = fst (Keyword_or h4 0 0)
    in snd (Keyword_and h2 0 0) = Inr 0 \<and> cache (h3 ! 0) = [] \<and> length (state (h3 ! 0)) = 1
     \<and> length (cache (h4 ! 0)) = 1
     \<and> snd (Keyword_or h4 0 0) = Inr 0 \<and> cache (h5 ! 0) = [] \<and> length (state (h5 ! 0)) = 1)"
proof -
  let ?h2 = "fst (Keyword_lt (fst (Keyword_gt [nspecies] 0 (IntV 2))) 0 (IntV 5))"
  let ?k = "nspecies\<lparr>state := [''nspecies(2*),nspecies(*5)'']\<rparr>"
  let ?h4 = "[?k\<lparr>cache := [''nspecies(7*)'']\<rparr>]"
  have s: "snd (generic_combine ?h2 0 0 '','') = Inr 0"
    by (simp add: Keyword_gt_def Keyword_lt_def generic_combine_def
      combine_self_def nspecies_def Keyword_init_def Let_def)
  have c: "generic_combine ?h2 0 0 '','' = (fst (generic_combine ?h2 0 0 '',''), Inr 0)"
    by (simp add: prod_eq_iff s)
  have l: "0 < length ?h2" "length (cache (?h2 ! 0)) = 2" "state (?h2 ! 0) = []"
    by (simp_all add: Keyword_gt_def Keyword_lt_def nspecies_def Keyword_init_def Let_def)
  have h3: "fst (Keyword_and ?h2 0 0) = [?k]"
    by (simp add: bounds_then_and nspecies_def Keyword_init_def format_name_def
        str_int_def str_nat.simps)
  have h4: "fst (Keyword_gt [?k] 0 (IntV 7)) = ?h4"
    by (simp add: Keyword_gt_def nspecies_def Keyword_init_def format_name_def
        str_int_def str_nat.simps Let_def)
  have s': "snd (generic_combine ?h4 0 0 '':'') = Inr 0"
    by (simp add: generic_combine_def combine_self_def)
  have c': "generic_combine ?h4 0 0 '':'' = (fst (generic_combine ?h4 0 0 '':''), Inr 0)"
    by (simp add: prod_eq_iff s')
  have l': "0 < length ?h4" "length (cache (?h4 ! 0)) \<noteq> 2"
    by simp_all
  have first: "cache (fst (generic_combine ?h2 0 0 '','') ! 0) = []
      \<and> length (state (fst (generic_combine ?h2 0 0 '','') ! 0)) = 1"
    using self_combine_settles [OF l(1) c] l(2,3) by simp
  have second: "cache (fst (generic_combine ?h4 0 0 '':'') ! 0) = []
      \<and> length (state (fst (generic_combine ?h4 0 0 '':'') ! 0)) = 1"
    using self_combine_settles [OF l'(1) c'] l'(2) by simp
  have t: "fst (generic_combine ?h2 0 0 '','') = [?k]"
    using h3 by (simp add: Keyword_and_def)
  show ?thesis
    unfolding Let_def h3 h4
    using first second s s' unfolding t
    by (simp add: Keyword_and_def Keyword_or_def)
qed

section \<open>Negation\<close>

lemma replace_chr_Nil [simp]: "replace_chr c new [] = []"
  by (simp add: replace_chr_def)

lemma replace_chr_Cons [simp]:
  "replace_chr c new (x # xs) = (if x = c then new else [x]) @ replace_chr c new xs"
  by (simp add: replace_chr_def)

lemma replace_chr_absent: "c \<notin> set s \<Longrightarrow> replace_chr c new s = s"
  by (induction s) auto

lemma unmark_mark:
  "CHR ''!'' \<notin> set s \<Longrightarrow> replace_chr CHR ''!'' [] (replace_chr CHR ''('' ''(!'' s) = s"
  by (induction s) auto

lemma mark_present:
  "CHR ''('' \<in> set s \<Longrightarrow> CHR ''!'' \<in> set (replace_chr CHR ''('' ''(!'' s)"
  by (induction s) auto

lemma invert_str_twice:
  assumes "CHR ''!'' \<notin> set t"
  shows "invert_str (invert_str t) = t"
proof (cases "CHR ''('' \<in> set t")
  case True
  then show ?thesis
    using assms by (simp add: invert_str_def mark_present unmark_mark)
next
  case False
  then have "invert_str t = t"
    using assms by (simp add: invert_str_def replace_chr_absent)
  then show ?thesis by simp
qed

lemma Keyword_invert_str:
  assumes "self < length h"
    and "length (state (h ! self)) = 1 \<or> length (cache (h ! self)) = 1"
    and "Keyword_str (h ! self) = Inr s"
  shows "snd (Keyword_invert h self) = Inr self
    \<and> length (fst (Keyword_invert h self)) = length h
    \<and> length (state (fst (Keyword_invert h self) ! self)) = length (state (h ! self))
    \<and> length (cache (fst (Keyword_invert h self) ! self)) = length (cache (h ! self))
    \<and> Keyword_str (fst (Keyword_invert h self) ! self) = Inr (invert_str s)"
proof (cases "length (state (h ! self)) = 1")
  case True
  then show ?thesis
    using assms(1,3) by (simp add: Keyword_invert_def Keyword_str_def Let_def)
next
  case False
  then have "length (cache (h ! self)) = 1"
    using assms(2) by simp
  then show ?thesis
    using False assms(1,3) by (simp add: Keyword_invert_def Keyword_str_def Let_def)
qed

text \<open>
  C5, as stated, fails: the node built by \<open>(~(Egap == 1)) & (nspecies == 2)\<close> holds the one
  settled entry \<open>Egap(!1),nspecies(2)\<close>; negating it twice leaves \<open>Egap(!1),nspecies(!2)\<close>.
\<close>

theorem invert_twice_counterexample:
  "(let h1 = fst (Keyword_eq [Egap, nspecies] 0 (IntV 1));
        h2 = fst (Keyword_invert h1 0);
        h3 = fst (Keyword_eq h2 1 (IntV 2));
        h4 = fst (Keyword_and h3 0 1);
        h5 = fst (Keyword_invert h4 2);
        h6 = fst (Keyword_invert h5 2)
    in snd (Keyword_and h3 0 1) = Inr 2
     \<and> state (h4 ! 2) = [''Egap(!1),nspecies(2)''] \<and> cache (h4 ! 2) = []
     \<and> Keyword_str (h4 ! 2) = Inr ''Egap(!1),nspecies(2)''
     \<and> snd (Keyword_invert h4 2) = Inr 2
     \<and> snd (Keyword_invert h5 2) = Inr 2
     \<and> Keyword_str (h6 ! 2) = Inr ''Egap(!1),nspecies(!2)''
     \<and> Keyword_str (h6 ! 2) \<noteq> Keyword_str (h4 ! 2))"
proof -
  let ?E = "Egap\<lparr>cache := [''Egap(!1)'']\<rparr>"
  let ?N = "nspecies\<lparr>cache := [''nspecies(2)'']\<rparr>"
  let ?K = "\<lambda>s. \<lparr>name = None, ptype = None, atype = None, state = [s], cache = [],
               classes = {Some ''Egap'', Some ''nspecies''}\<rparr>"
  have h2: "fst (Keyword_invert (fst (Keyword_eq [Egap, nspecies] 0 (IntV 1))) 0) = [?E, nspecies]"
    by (simp add: Keyword_eq_def Keyword_invert_def invert_str_def Egap_def Keyword_init_def
        format_name_def str_int_def str_nat.simps Let_def)
  have h3: "fst (Keyword_eq [?E, nspecies] 1 (IntV 2)) = [?E, ?N]"
    by (simp add: Keyword_eq_def nspecies_def Keyword_init_def
        format_name_def str_int_def str_nat.simps Let_def)
  have h4: "Keyword_and [?E, ?N] 0 1 = ([?E, ?N, ?K ''Egap(!1),nspecies(2)''], Inr 2)"
    by (simp add: Keyword_and_def generic_combine_def combine_other_def resolved_def
        parenthesize_def Egap_def nspecies_def Keyword_init_def insert_commute)
  have h5: "Keyword_invert [?E, ?N, ?K ''Egap(!1),nspecies(2)''] 2 =
      ([?E, ?N, ?K ''Egap(1),nspecies(2)''], Inr 2)"
    by (simp add: Keyword_invert_def invert_str_def Let_def)
  have h6: "Keyword_invert [?E, ?N, ?K ''Egap(1),nspecies(2)''] 2 =
      ([?E, ?N, ?K ''Egap(!1),nspecies(!2)''], Inr 2)"
    by (simp add: Keyword_invert_def invert_str_def Let_def)
  show ?thesis
    unfolding Let_def h2 h3 h4 fst_conv snd_conv h5 h6
    by (simp add: Keyword_str_def)
qed

text \<open>
  C5, amended. On a node where negation applies (\<open>state\<close> or \<open>cache\<close> holds exactly one
  entry), if the string the node stringifies to contains no marker \<open>!\<close>, or is the
  negation of a string that contains none, then negation succeeds twice in succession
  and the node stringifies to the same string as before the first negation.
\<close>

theorem invert_twice_restores:
  assumes "self < length h"
    and "length (state (h ! self)) = 1 \<or> length (cache (h ! self)) = 1"
    and "Keyword_str (h ! self) = Inr s"
    and "CHR ''!'' \<notin> set t"
    and "s = t \<or> s = invert_str t"
  shows "snd (Keyword_invert h self) = Inr self
    \<and> snd (Keyword_invert (fst (Keyword_invert h self)) self) = Inr self
    \<and> Keyword_str (fst (Keyword_invert (fst (Keyword_invert h self)) self) ! self) = Inr s"
proof -
  let ?h1 = "fst (Keyword_invert h self)"
  note one = Keyword_invert_str [OF assms(1-3)]
  have l1: "self < length ?h1"
    and p1: "length (state (?h1 ! self)) = 1 \<or> length (cache (?h1 ! self)) = 1"
    and s1: "Keyword_str (?h1 ! self) = Inr (invert_str s)"
    using one assms(1,2) by simp_all
  note two = Keyword_invert_str [OF l1 p1 s1]
  have "invert_str (invert_str s) = s"
    using assms(4,5) invert_str_twice [of t] by auto
  then show ?thesis
    using one two by simp
qed

theorem invert_twice_restores_witness:
  "(let h = fst (Keyword_eq [Egap_type] 0 (Text ''insulator''));
        h1 = fst (Keyword_invert h 0);
        h2 = fst (Keyword_invert h1 0)
    in Keyword_str (h ! 0) = Inr ''Egap_type('insulator')''
     \<and> snd (Keyword_invert h 0) = Inr 0
     \<and> snd (Keyword_invert h1 0) = Inr 0
     \<and> Keyword_str (h2 ! 0) = Inr ''Egap_type('insulator')'')"
proof -
  let ?h = "fst (Keyword_eq [Egap_type] 0 (Text ''insulator''))"
  have a: "0 < length ?h" "length (state (?h ! 0)) = 1 \<or> length (cache (?h ! 0)) = 1"
    "Keyword_str (?h ! 0) = Inr ''Egap_type('insulator')''"
    by (simp_all add: Keyword_eq_def Keyword_str_def Egap_type_def Keyword_init_def
        format_name_def sq_def Let_def)
  have b: "CHR ''!'' \<notin> set ''Egap_type('insulator')''"
    by simp
  show ?thesis
    unfolding Let_def
    using invert_twice_restores [OF a b] a(3) by simp
qed

text \<open>
  C8, as stated, fails: after \<open>(x > 1) & (x < 2)\<close> and then \<open>x > 3\<close> on the one \<open>nspecies\<close>
  instance, \<open>state\<close> and \<open>cache\<close> hold one entry each, and negation succeeds: it negates
  the state entry and leaves the cache entry alone.
\<close>

theorem invert_both_single_counterexample:
  "(let h1 = fst (Keyword_and (fst (Keyword_lt (fst (Keyword_gt [nspecies] 0 (IntV 1))) 0 (IntV 2))) 0 0);
        h2 = fst (Keyword_gt h1 0 (IntV 3))
    in state (h2 ! 0) = [''nspecies(1*),nspecies(*2)'']
     \<and> cache (h2 ! 0) = [''nspecies(3*)'']
     \<and> snd (Keyword_invert h2 0) = Inr 0
     \<and> state (fst (Keyword_invert h2 0) ! 0) = [''nspecies(!1*),nspecies(!*2)'']
     \<and> cache (fst (Keyword_invert h2 0) ! 0) = [''nspecies(3*)''])"
proof -
  let ?k = "nspecies\<lparr>state := [''nspecies(1*),nspecies(*2)'']\<rparr>"
  have h1: "fst (Keyword_and (fst (Keyword_lt (fst (Keyword_gt [nspecies] 0 (IntV 1))) 0
      (IntV 2))) 0 0) = [?k]"
    by (simp add: bounds_then_and nspecies_def Keyword_init_def format_name_def
        str_int_def str_nat.simps)
  have h2: "fst (Keyword_gt [?k] 0 (IntV 3)) = [?k\<lparr>cache := [''nspecies(3*)'']\<rparr>]"
    by (simp add: Keyword_gt_def nspecies_def Keyword_init_def format_name_def
        str_int_def str_nat.simps Let_def)
  show ?thesis
    unfolding Let_def h1 h2
    by (simp add: Keyword_invert_def invert_str_def Let_def)
qed

text \<open>
  C8, amended. Negation fails, with an assertion failure and the store unchanged, exactly
  when neither \<open>state\<close> nor \<open>cache\<close> holds exactly one entry; in particular when both
  are empty, and when one of them holds two entries and the other none or two. Whenever
  \<open>state\<close> or \<open>cache\<close> holds exactly one entry it returns the node.
\<close>

theorem invert_fails_iff:
  assumes "self < length h"
  shows "snd (Keyword_invert h self) =
      (if length (state (h ! self)) \<noteq> 1 \<and> length (cache (h ! self)) \<noteq> 1
       then Inl AssertionError else Inr self)
    \<and> (length (state (h ! self)) \<noteq> 1 \<and> length (cache (h ! self)) \<noteq> 1 \<longrightarrow>
         fst (Keyword_invert h self) = h)
    \<and> (state (h ! self) = [] \<and> cache (h ! self) = [] \<longrightarrow>
         snd (Keyword_invert h self) = Inl AssertionError)
    \<and> (length (state (h ! self)) = 2 \<and> length (cache (h ! self)) \<in> {0, 2} \<longrightarrow>
         snd (Keyword_invert h self) = Inl AssertionError)
    \<and> (length (cache (h ! self)) = 2 \<and> length (state (h ! self)) \<in> {0, 2} \<longrightarrow>
         snd (Keyword_invert h self) = Inl AssertionError)"
  by (auto simp add: Keyword_invert_def Let_def)

theorem invert_fails_iff_witness:
  "Keyword_invert [nspecies] 0 = ([nspecies], Inl AssertionError)
   \<and> Keyword_invert [nspecies\<lparr>state := [''a'', ''b'']\<rparr>] 0
       = ([nspecies\<lparr>state := [''a'', ''b'']\<rparr>], Inl AssertionError)
   \<and> snd (Keyword_invert (fst (Keyword_eq [nspecies] 0 (IntV 3))) 0) = Inr 0"
  using invert_fails_iff [of 0 "[nspecies]"]
    invert_fails_iff [of 0 "[nspecies\<lparr>state := [''a'', ''b'']\<rparr>]"]
    invert_fails_iff [of 0 "fst (Keyword_eq [nspecies] 0 (IntV 3))"]
  by (simp add: prod_eq_iff nspecies_def Keyword_init_def Keyword_eq_def Let_def)

section \<open>Unresolved operands of a combination\<close>

lemma cross_unresolved_TypeError:
  assumes "other \<noteq> self"
    and "resolved (h ! self) = None \<or> resolved (h ! other) = None"
  shows "generic_combine h self other token = (h, Inl TypeError)"
proof -
  have "combine_other (h ! self) (h ! other) token = Inl TypeError"
    using assms(2)
    by (auto simp: combine_other_def parenthesize_def split: option.splits sum.splits)
  then show ?thesis
    using assms(1) by (rule generic_combine_other_err [rotated])
qed

lemma generic_combine_never_asserts:
  "snd (generic_combine h self other token) \<noteq> Inl AssertionError"
  by (auto simp: generic_combine_def combine_self_def combine_other_def parenthesize_def
      split: option.splits sum.splits)

text \<open>
  C6. The code at the inputs where the claim expects an assertion failure: combining the
  two distinct prototypes \<open>Egap\<close> and \<open>Egap_type\<close>, neither of which resolves to a string,
  raises \<open>TypeError\<close> (the membership test on \<open>None\<close>), not \<open>AssertionError\<close>; so does the
  combination of a resolved left operand with an unresolved right operand.
\<close>

theorem cross_unresolved_raises:
  "resolved Egap = None
   \<and> Keyword_and [Egap, Egap_type] 0 1 = ([Egap, Egap_type], Inl TypeError)
   \<and> Keyword_or [Egap, Egap_type] 0 1 = ([Egap, Egap_type], Inl TypeError)
   \<and> resolved (fst (Keyword_eq [Egap, Egap_type] 0 (IntV 1)) ! 0) = Some ''Egap(1)''
   \<and> snd (Keyword_and (fst (Keyword_eq [Egap, Egap_type] 0 (IntV 1))) 0 1) = Inl TypeError"
  by (simp add: Keyword_and_def Keyword_or_def generic_combine_def combine_other_def
      parenthesize_def resolved_def Keyword_eq_def Egap_def Egap_type_def Keyword_init_def
      format_name_def str_int_def str_nat.simps Let_def)

section \<open>Reset\<close>

lemma foldl_collect_names:
  "foldl (\<lambda>acc (n, o'). acc @ [n]) xs ms = xs @ map fst ms"
  by (induction ms arbitrary: xs) (auto split: prod.splits)

lemma find_all_keywords:
  "all_keywords (find_all m) =
     (if all_keywords m = [] then map fst (members m) else all_keywords m)"
  by (simp add: find_all_def foldl_collect_names)

lemma find_all_rest [simp]:
  "heap (find_all m) = heap m" "members (find_all m) = members m"
  by (simp_all add: find_all_def)

lemma reset_loop_ok:
  assumes "set ns \<subseteq> fst ` set (members m)"
  shows "\<exists>m'. reset_loop ns m = (m', Inr ())
    \<and> members m' = members m \<and> all_keywords m' = all_keywords m
    \<and> length (heap m') = length (heap m)
    \<and> (\<forall>a < length (heap m). heap m' ! a =
          (if \<exists>n \<in> set ns. map_of (members m) n = Some a
           then (heap m ! a)\<lparr>state := [], cache := []\<rparr> else heap m ! a))"
  using assms
proof (induction ns arbitrary: m)
  case Nil
  then show ?case by simp
next
  case (Cons n ns)
  from Cons.prems have "n \<in> fst ` set (members m)" by simp
  then obtain cls where cls: "map_of (members m) n = Some cls"
    by (metis domD dom_map_of_conv_image_fst)
  let ?m1 = "m\<lparr>heap := (heap m)[cls := (heap m ! cls)\<lparr>state := [], cache := []\<rparr>]\<rparr>"
  have "set ns \<subseteq> fst ` set (members ?m1)"
    using Cons.prems by simp
  from Cons.IH [OF this] obtain m' where m': "reset_loop ns ?m1 = (m', Inr ())"
    "members m' = members m" "all_keywords m' = all_keywords m"
    "length (heap m') = length (heap m)"
    "\<forall>a < length (heap m). heap m' ! a =
          (if \<exists>n \<in> set ns. map_of (members m) n = Some a
           then (heap ?m1 ! a)\<lparr>state := [], cache := []\<rparr> else heap ?m1 ! a)"
    by auto
  have "reset_loop (n # ns) m = (m', Inr ())"
    using cls m'(1) by simp
  moreover have "heap m' ! a =
          (if \<exists>n' \<in> set (n # ns). map_of (members m) n' = Some a
           then (heap m ! a)\<lparr>state := [], cache := []\<rparr> else heap m ! a)"
    if "a < length (heap m)" for a
  proof (cases "a = cls")
    case True
    then show ?thesis
      using that m'(5) cls by auto
  next
    case False
    then show ?thesis
      using that m'(5) cls by auto
  qed
  ultimately show ?case
    using m'(2-4) by blast
qed

text \<open>
  C9. On a module whose attributes refer to allocated objects and whose registry names
  only attributes of the module, \<open>reset\<close> returns without raising. Afterwards every
  registered node has empty \<open>state\<close> and empty \<open>cache\<close>, its \<open>classes\<close> and its name are
  what they were, and a node with a field name stringifies to that name.
\<close>

theorem reset_clears:
  assumes "\<forall>a \<in> snd ` set (members m). a < length (heap m)"
    and "set (all_keywords m) \<subseteq> fst ` set (members m)"
  shows "\<exists>m'. reset m = (m', Inr ())
    \<and> members m' = members m
    \<and> all_keywords m' = (if all_keywords m = [] then map fst (members m) else all_keywords m)
    \<and> (\<forall>n \<in> set (all_keywords m'). \<exists>a. map_of (members m') n = Some a
          \<and> state (heap m' ! a) = [] \<and> cache (heap m' ! a) = []
          \<and> classes (heap m' ! a) = classes (heap m ! a)
          \<and> name (heap m' ! a) = name (heap m ! a)
          \<and> (\<forall>f. name (heap m ! a) = Some f \<longrightarrow> Keyword_str (heap m' ! a) = Inr f))"
proof -
  let ?m0 = "find_all m"
  let ?ns = "all_keywords ?m0"
  have sub: "set ?ns \<subseteq> fst ` set (members ?m0)"
    using assms(2) by (simp add: find_all_keywords)
  from reset_loop_ok [OF sub] obtain m' where m': "reset_loop ?ns ?m0 = (m', Inr ())"
    "members m' = members m" "all_keywords m' = ?ns"
    "\<forall>a < length (heap m). heap m' ! a =
          (if \<exists>n \<in> set ?ns. map_of (members m) n = Some a
           then (heap m ! a)\<lparr>state := [], cache := []\<rparr> else heap m ! a)"
    by auto
  have r: "reset m = (m', Inr ())"
    using m'(1) by (simp add: reset_def Let_def)
  have each: "\<exists>a. map_of (members m') n = Some a
          \<and> state (heap m' ! a) = [] \<and> cache (heap m' ! a) = []
          \<and> classes (heap m' ! a) = classes (heap m ! a)
          \<and> name (heap m' ! a) = name (heap m ! a)
          \<and> (\<forall>f. name (heap m ! a) = Some f \<longrightarrow> Keyword_str (heap m' ! a) = Inr f)"
    if n: "n \<in> set (all_keywords m')" for n
  proof -
    from n sub m'(3) have "n \<in> fst ` set (members m)" by auto
    then obtain a where a: "map_of (members m) n = Some a"
      by (metis domD dom_map_of_conv_image_fst)
    then have "(n, a) \<in> set (members m)" by (rule map_of_SomeD)
    then have "a \<in> snd ` set (members m)" by force
    then have lt: "a < length (heap m)" using assms(1) by blast
    have "heap m' ! a = (heap m ! a)\<lparr>state := [], cache := []\<rparr>"
      using m'(4) lt a n m'(3) by auto
    then show ?thesis
      using a m'(2) by (auto simp: Keyword_str_def)
  qed
  show ?thesis
    using r m'(2,3) each by (simp add: find_all_keywords)
qed

theorem reset_clears_witness:
  "(let m = \<lparr>heap = [fst (Keyword_eq [Egap] 0 (IntV 1)) ! 0,
                      fst (Keyword_and (fst (Keyword_lt (fst (Keyword_gt [nspecies] 0 (IntV 2))) 0 (IntV 5))) 0 0) ! 0],
             members = [(''Egap'', 0), (''nspecies'', 1)],
             all_keywords = []\<rparr>
    in snd (reset m) = Inr ()
     \<and> all_keywords (fst (reset m)) = [''Egap'', ''nspecies'']
     \<and> heap (fst (reset m)) = [Egap, nspecies]
     \<and> Keyword_str (heap (fst (reset m)) ! 0) = Inr ''Egap''
     \<and> Keyword_str (heap (fst (reset m)) ! 1) = Inr ''nspecies'')"
proof -
  let ?m = "\<lparr>heap = [fst (Keyword_eq [Egap] 0 (IntV 1)) ! 0,
                      fst (Keyword_and (fst (Keyword_lt (fst (Keyword_gt [nspecies] 0 (IntV 2))) 0 (IntV 5))) 0 0) ! 0],
             members = [(''Egap'', 0), (''nspecies'', 1)],
             all_keywords = []\<rparr>"
  have h: "heap ?m = [Egap\<lparr>cache := [''Egap(1)'']\<rparr>,
                      nspecies\<lparr>state := [''nspecies(2*),nspecies(*5)'']\<rparr>]"
    by (simp add: bounds_then_and Keyword_eq_def Egap_def nspecies_def Keyword_init_def
        format_name_def str_int_def str_nat.simps Let_def)
  have r: "reset ?m = (\<lparr>heap = [Egap, nspecies], members = [(''Egap'', 0), (''nspecies'', 1)],
             all_keywords = [''Egap'', ''nspecies'']\<rparr>, Inr ())"
    using h by (simp add: reset_def find_all_def Egap_def nspecies_def Keyword_init_def Let_def)
  have a: "\<forall>a \<in> snd ` set (members ?m). a < length (heap ?m)"
    "set (all_keywords ?m) \<subseteq> fst ` set (members ?m)"
    by simp_all
  show ?thesis
    unfolding Let_def
    using reset_clears [OF a] r
    by (simp add: Keyword_str_def Egap_def nspecies_def Keyword_init_def)
qed

end
